theory Spec2Isabelle
  imports Complex_Main "HOL-Library.Log_Nat" "HOL-Library.Signed_Division"
begin

section \<open>Python values, errors and the library boundary\<close>

text \<open>
  The development embeds \<^verbatim>\<open>odoo/tools/image.py\<close>, a Python 3 module. Python integers are
  \<^typ>\<open>int\<close>; a Python float is the rational number it denotes (\<^typ>\<open>rat\<close>); byte strings
  and strings are \<^typ>\<open>string\<close>. Every \<^verbatim>\<open>raise\<close> is a value \<open>Inl e\<close> of the result
  type.

  \<open>ValueError t x\<close> stands for \<^verbatim>\<open>ValueError(t % str(x))\<close>: the (translated) message
  template and the float that is formatted into it. \<open>LibraryError\<close> is whatever
  \<^verbatim>\<open>base64.b64decode\<close> or \<^verbatim>\<open>Image.open\<close> raise (\<^verbatim>\<open>binascii.Error\<close>, \<^verbatim>\<open>OSError\<close>).
\<close>

datatype py_error =
    ValueError string rat
  | ZeroDivisionError
  | OverflowError
  | AttributeError
  | LibraryError string

text \<open>
  The argument \<^verbatim>\<open>base64_source\<close> is documented as ``string or bytes''; callers also pass
  \<^verbatim>\<open>None\<close> and \<^verbatim>\<open>False\<close> for a missing image.
\<close>

datatype py_source = PyNone | PyFalse | PyBytes string | PyStr string

fun truthy_source :: "py_source \<Rightarrow> bool" where
  "truthy_source PyNone = False"
| "truthy_source PyFalse = False"
| "truthy_source (PyBytes b) = (b \<noteq> [])"
| "truthy_source (PyStr s) = (s \<noteq> [])"

text \<open>
  \<^verbatim>\<open>base64_source[:1] == b'P'\<close>: a one-byte slice compared with a bytes literal. In
  Python 3 a \<^verbatim>\<open>str\<close> never equals a \<^verbatim>\<open>bytes\<close> object, so only a bytes source can match.
\<close>

fun first_is_P :: "py_source \<Rightarrow> bool" where
  "first_is_P (PyBytes b) = (take 1 b = ''P'')"
| "first_is_P _ = False"

text \<open>Truthiness of an optional string argument (\<^verbatim>\<open>crop\<close>, \<^verbatim>\<open>output_format\<close>).\<close>

fun truthy_str :: "string option \<Rightarrow> bool" where
  "truthy_str None = False"
| "truthy_str (Some s) = (s \<noteq> [])"

text \<open>
  Pixel data is never inspected by the module: it is handed to Pillow. The model records
  the Pillow calls that were made on it, in order, as a term; whether Pillow would accept
  a call (a mask of the wrong mode, a resize to zero pixels) is outside the model, and so
  is what the pixels look like afterwards.
\<close>

datatype pixels =
    FromFile string
  | Crop "int \<times> int \<times> int \<times> int" pixels
  | Resize "int \<times> int" pixels
  | NewImage string "int \<times> int"
  | PasteColor "int \<times> int \<times> int" "int \<times> int \<times> int \<times> int" pixels
  | PasteMasked pixels pixels pixels
  | Convert string pixels
  | ConvertWebPalette pixels
  | AlphaBand pixels
  | PutAlpha pixels pixels

text \<open>
  What the module reads of a Pillow image: \<^verbatim>\<open>image.size\<close>, \<^verbatim>\<open>image.format\<close> (\<^verbatim>\<open>None\<close> for
  an image that was not read from a file), \<^verbatim>\<open>image.mode\<close> and whether
  \<^verbatim>\<open>'transparency' in image.info\<close>.
\<close>

record pil_image =
  im_size :: "int \<times> int"
  im_format :: "string option"
  im_mode :: string
  im_transparency :: bool
  im_pixels :: pixels

datatype py_value = VStr string | VBool bool | VInt int

text \<open>
  The result of \<^verbatim>\<open>image_process\<close>: \<^verbatim>\<open>False\<close>, the source itself, or
  \<^verbatim>\<open>image_to_base64(image, **opt)\<close>, kept as the image and the keyword dictionary that
  are saved and base64-encoded.
\<close>

datatype py_result =
    RFalse
  | RSource py_source
  | REncoded pil_image "string \<rightharpoonup> py_value"

text \<open>
  The collaborators that are not part of the module: \<^verbatim>\<open>base64.b64decode\<close>, Pillow's
  \<^verbatim>\<open>Image.open\<close> and the translation function \<^verbatim>\<open>_\<close>.
\<close>

record library =
  b64decode :: "py_source \<Rightarrow> py_error + string"
  Image_open :: "string \<Rightarrow> py_error + pil_image"
  gettext :: "string \<Rightarrow> string"

section \<open>Python arithmetic\<close>

text \<open>\<^verbatim>\<open>a // b\<close> on integers: floor division, \<^verbatim>\<open>ZeroDivisionError\<close> when \<open>b = 0\<close>.\<close>

definition py_floordiv :: "int \<Rightarrow> int \<Rightarrow> py_error + int" where
  "py_floordiv a b = (if b = 0 then Inl ZeroDivisionError else Inr (a div b))"

text \<open>
  Python's \<^verbatim>\<open>round\<close> on a float, and the rounding of an IEEE 754 operation: to the
  nearest integer, a tie to the even one.
\<close>

definition py_round :: "rat \<Rightarrow> int" where
  "py_round x = (let q = \<lfloor>x\<rfloor>; r = x - of_int q in
       if r < 1 / 2 then q else if 1 / 2 < r then q + 1 else if even q then q else q + 1)"

text \<open>
  \<^verbatim>\<open>a / b\<close> on integers is true division: CPython returns the binary64 number nearest to
  the exact quotient (ties to even), and raises \<^verbatim>\<open>OverflowError\<close> when that is beyond the
  largest double. For \<open>a, b > 0\<close>, \<open>float_exponent a b\<close> is the \<open>e\<close> with
  \<open>2\<^sup>e \<le> a / b < 2\<^sup>e\<^sup>+\<^sup>1\<close>; the quotient is rounded to a multiple of \<open>2\<^sup>p\<close>, where
  \<open>p = e - 52\<close> (53 significant bits), and \<open>p = -1074\<close> in the subnormal range.
\<close>

definition float_exponent :: "int \<Rightarrow> int \<Rightarrow> int" where
  "float_exponent a b = (let d = bitlen a - bitlen b in
      if of_int b * 2 powi d \<le> (of_int a :: rat) then d else d - 1)"

definition binary64 :: "int \<Rightarrow> int \<Rightarrow> rat" where
  "binary64 a b = (let p = max (float_exponent a b - 52) (- 1074) in
       of_int (py_round (of_int a / of_int b / 2 powi p)) * 2 powi p)"

definition py_truediv :: "int \<Rightarrow> int \<Rightarrow> py_error + rat" where
  "py_truediv a b =
     (if b = 0 then Inl ZeroDivisionError
      else let x = of_int (sgn a * sgn b) * binary64 \<bar>a\<bar> \<bar>b\<bar> in
        if 2 ^ 1024 \<le> \<bar>x\<bar> then Inl OverflowError else Inr x)"

text \<open>
  \<^verbatim>\<open>str.upper()\<close> on a format name (ASCII: \<^verbatim>\<open>a\<close>..\<^verbatim>\<open>z\<close> become \<^verbatim>\<open>A\<close>..\<^verbatim>\<open>Z\<close>).
\<close>

definition upper_char :: "char \<Rightarrow> char" where
  "upper_char c =
     (let n = (of_char c :: nat) in if 97 \<le> n \<and> n \<le> 122 then char_of (n - 32) else c)"

definition upper :: "string \<Rightarrow> string" where
  "upper s = map upper_char s"

text \<open>
  \<^verbatim>\<open>random.randrange(start, stop, step)\<close> for \<open>step > 0\<close> and \<open>start < stop\<close>: CPython
  computes \<open>n = (stop - start + step - 1) // step\<close> and returns
  \<open>start + step * _randbelow(n)\<close>. The draw \<open>r\<close> is the generator's raw output, reduced
  below \<open>n\<close>.
\<close>

definition randrange :: "nat \<Rightarrow> int \<Rightarrow> int \<Rightarrow> int \<Rightarrow> int" where
  "randrange r start stop step =
     start + step * (int r mod ((stop - start + step - 1) div step))"

section \<open>The Pillow calls\<close>

text \<open>
  Modelled from the spec: Pillow's \<^verbatim>\<open>Image.crop\<close> is not part of the repository. Section 4.2
  has the crop rectangle \<open>(xOffset, yOffset, xOffset + newW, yOffset + newH)\<close> with its
  coordinates rounded; Pillow rounds each coordinate with \<^verbatim>\<open>round\<close> and the cropped image
  spans the rounded box. Mode and \<^verbatim>\<open>info\<close> are copied; the new image has no file format.
  (\<^verbatim>\<open>x0, y0, x1, y1 = map(int, map(round, box))\<close>, size \<open>(x1 - x0, y1 - y0)\<close>.)
\<close>

definition pil_crop :: "pil_image \<Rightarrow> rat \<times> rat \<times> rat \<times> rat \<Rightarrow> pil_image" where
  "pil_crop img box =
     (let (x0, y0, x1, y1) = box;
          l = py_round x0; t = py_round y0; r = py_round x1; b = py_round y1
      in img\<lparr>im_size := (r - l, b - t), im_format := None,
               im_pixels := Crop (l, t, r, b) (im_pixels img)\<rparr>)"

text \<open>
  Modelled from the spec: Pillow's \<^verbatim>\<open>Image.thumbnail\<close> is not part of the repository. Section
  4.1, step 4c: ``Resize (downscale only, never upscale beyond original pixel dimensions)
  to fit within \<open>(askedWidth, askedHeight)\<close> preserving aspect ratio''. The arithmetic is
  that of the Pillow releases the module was written for: a side that is too long is set
  to the bound and the other side is scaled by the same ratio, rounded down but never
  below one pixel; first the width, then the height
  (\<^verbatim>\<open>if x > size[0]: y = int(max(y * size[0] / x, 1)); x = int(size[0])\<close>, then the same
  for \<^verbatim>\<open>y > size[1]\<close>; an image that already has the computed size is left alone). The
  quotients are taken exactly, as the float division gives them for sides below
  \<open>2\<^sup>2\<^sup>6\<close>, and the box is taken to be non-negative.
\<close>

definition thumbnail_size :: "int \<times> int \<Rightarrow> int \<times> int \<Rightarrow> int \<times> int" where
  "thumbnail_size sz box =
     (let (x, y) = sz; (bw, bh) = box;
          (x, y) = (if x > bw then (bw, max ((y * bw) div x) 1) else (x, y));
          (x, y) = (if y > bh then (max ((x * bh) div y) 1, bh) else (x, y))
      in (x, y))"

definition pil_thumbnail :: "pil_image \<Rightarrow> int \<times> int \<Rightarrow> pil_image" where
  "pil_thumbnail img box =
     (let s = thumbnail_size (im_size img) box in
      if s = im_size img then img
      else img\<lparr>im_size := s, im_pixels := Resize s (im_pixels img)\<rparr>)"

text \<open>
  Modelled from the spec: Pillow's \<^verbatim>\<open>Image.new\<close> and \<^verbatim>\<open>Image.paste\<close> are not part of the
  repository. Section 4.1, step 5: ``composite the original image (using its own
  alpha/transparency as a mask) over a full-canvas fill of that color, producing an opaque
  RGB image of the same dimensions''. \<^verbatim>\<open>Image.new(mode, size)\<close> is a fresh canvas of that mode
  and size, with no file format and an empty \<^verbatim>\<open>info\<close>.
\<close>

definition Image_new :: "string \<Rightarrow> int \<times> int \<Rightarrow> pil_image" where
  "Image_new mode sz =
     \<lparr>im_size = sz, im_format = None, im_mode = mode, im_transparency = False,
      im_pixels = NewImage mode sz\<rparr>"

text \<open>\<^verbatim>\<open>image.paste(color, box=...)\<close> and \<^verbatim>\<open>image.paste(source, mask=...)\<close>, both in place.\<close>

definition pil_paste_color ::
  "pil_image \<Rightarrow> int \<times> int \<times> int \<Rightarrow> int \<times> int \<times> int \<times> int \<Rightarrow> pil_image" where
  "pil_paste_color img color box =
     img\<lparr>im_pixels := PasteColor color box (im_pixels img)\<rparr>"

definition pil_paste_masked :: "pil_image \<Rightarrow> pil_image \<Rightarrow> pil_image \<Rightarrow> pil_image" where
  "pil_paste_masked img source msk =
     img\<lparr>im_pixels := PasteMasked (im_pixels source) (im_pixels msk) (im_pixels img)\<rparr>"

text \<open>
  Modelled from the spec: Pillow's \<^verbatim>\<open>Image.convert\<close> and \<^verbatim>\<open>Image.putalpha\<close> are not part of
  the repository. Section 4.1, steps 6 and 7, have the conversions to the web palette and
  to plain RGB and the re-application of the alpha channel.
  \<^verbatim>\<open>image.convert(mode)\<close> returns an image of that mode and the same size;
  \<^verbatim>\<open>convert('P', palette=Image.WEB, colors=256)\<close> is the conversion to the web palette.
  \<^verbatim>\<open>info\<close> is not read by the module after a conversion.
\<close>

definition pil_convert :: "string \<Rightarrow> pil_image \<Rightarrow> pil_image" where
  "pil_convert mode img =
     img\<lparr>im_format := None, im_mode := mode, im_pixels := Convert mode (im_pixels img)\<rparr>"

definition pil_convert_web :: "pil_image \<Rightarrow> pil_image" where
  "pil_convert_web img =
     img\<lparr>im_format := None, im_mode := ''P'',
             im_pixels := ConvertWebPalette (im_pixels img)\<rparr>"

text \<open>
  \<^verbatim>\<open>image.putalpha(alpha)\<close>, in place: an image without an alpha band is promoted to the
  alpha mode of its base mode (\<^verbatim>\<open>L\<close> for the greyscale modes, \<^verbatim>\<open>RGB\<close> for the others).
\<close>

definition pil_putalpha :: "pil_image \<Rightarrow> pixels \<Rightarrow> pil_image" where
  "pil_putalpha img alpha =
     img\<lparr>im_mode :=
              (if im_mode img \<in> set [''LA'', ''RGBA''] then im_mode img
               else if im_mode img \<in> set [''1'', ''L'', ''I'', ''F''] then ''LA''
               else ''RGBA''),
            im_pixels := PutAlpha alpha (im_pixels img)\<rparr>"

section \<open>The module\<close>

definition IMAGE_MAX_RESOLUTION :: rat where
  "IMAGE_MAX_RESOLUTION = 45 * 10 ^ 6"

text \<open>
  \<^verbatim>\<open>base64_to_image\<close>:
  \<^verbatim>\<open>return Image.open(io.BytesIO(base64.b64decode(base64_source)))\<close>
\<close>

definition base64_to_image :: "library \<Rightarrow> py_source \<Rightarrow> py_error + pil_image" where
  "base64_to_image lib base64_source =
     (case b64decode lib base64_source of
        Inl e \<Rightarrow> Inl e
      | Inr raw \<Rightarrow> Image_open lib raw)"

text \<open>
  The resolution guard (lines 94 to 96). The message reports
  \<^verbatim>\<open>str(IMAGE_MAX_RESOLUTION / 10e6)\<close>; both operands are floats that are integers, and the
  quotient 4.5 is a double, so the division is exact.
\<close>

definition resolution_message :: string where
  "resolution_message =
     ''Image size excessive, uploaded images must be smaller than %s million pixels.''"

definition check_resolution :: "library \<Rightarrow> bool \<Rightarrow> pil_image \<Rightarrow> py_error + unit" where
  "check_resolution lib verify_resolution img =
     (let (w, h) = im_size img in
      if verify_resolution \<and> of_int (w * h) > IMAGE_MAX_RESOLUTION
      then Inl (ValueError (gettext lib resolution_message)
                  (IMAGE_MAX_RESOLUTION / (10 * 10 ^ 6)))
      else Inr ())"

text \<open>
  The output format (lines 99 to 103):
  \<^verbatim>\<open>output_format = (output_format or image.format).upper()\<close>, then the two remappings.
  \<^verbatim>\<open>None.upper()\<close> is an \<^verbatim>\<open>AttributeError\<close>.
\<close>

definition resolve_output_format :: "string option \<Rightarrow> pil_image \<Rightarrow> py_error + string" where
  "resolve_output_format output_format img =
     (case (if truthy_str output_format then output_format else im_format img) of
        None \<Rightarrow> Inl AttributeError
      | Some f \<Rightarrow>
          let output_format = upper f in
          Inr (if output_format = ''BMP'' then ''PNG''
               else if output_format \<notin> set [''PNG'', ''JPEG'', ''GIF''] then ''JPEG''
               else output_format))"

text \<open>
  The asked size (lines 109 and 110):
  \<^verbatim>\<open>asked_width = size[0] or (w * size[1]) // h\<close> and
  \<^verbatim>\<open>asked_height = size[1] or (h * size[0]) // w\<close>.
  A component that is \<^verbatim>\<open>None\<close> is falsy as \<open>0\<close> is, and is passed as \<open>0\<close>.
\<close>

definition asked_size :: "int \<times> int \<Rightarrow> int \<times> int \<Rightarrow> py_error + (int \<times> int)" where
  "asked_size wh size_arg =
     (let (w, h) = wh; (s0, s1) = size_arg in
      case (if s0 \<noteq> 0 then Inr s0 else py_floordiv (w * s1) h) of
        Inl e \<Rightarrow> Inl e
      | Inr asked_width \<Rightarrow>
          (case (if s1 \<noteq> 0 then Inr s1 else py_floordiv (h * s0) w) of
             Inl e \<Rightarrow> Inl e
           | Inr asked_height \<Rightarrow> Inr (asked_width, asked_height)))"

text \<open>
  The branch of the crop (line 117): \<^verbatim>\<open>w / asked_width > h / asked_height\<close>, a comparison
  of two floats.
\<close>

definition width_ratio_larger :: "int \<Rightarrow> int \<Rightarrow> int \<Rightarrow> int \<Rightarrow> py_error + bool" where
  "width_ratio_larger w h asked_width asked_height =
     (case py_truediv w asked_width of
        Inl e \<Rightarrow> Inl e
      | Inr rw \<Rightarrow>
          (case py_truediv h asked_height of
             Inl e \<Rightarrow> Inl e
           | Inr rh \<Rightarrow> Inr (rw > rh)))"

text \<open>
  The crop window (lines 117 to 126): the branch, then the two clamps
  (``No cropping above image size'').
\<close>

definition clamp_width :: "int \<Rightarrow> int \<times> int \<Rightarrow> py_error + (int \<times> int)" where
  "clamp_width w nw =
     (let (new_w, new_h) = nw in
      if new_w > w then
        (case py_floordiv (new_h * w) new_w of
           Inl e \<Rightarrow> Inl e
         | Inr q \<Rightarrow> Inr (w, q))
      else Inr (new_w, new_h))"

definition clamp_height :: "int \<Rightarrow> int \<times> int \<Rightarrow> py_error + (int \<times> int)" where
  "clamp_height h nw =
     (let (new_w, new_h) = nw in
      if new_h > h then
        (case py_floordiv (new_w * h) new_h of
           Inl e \<Rightarrow> Inl e
         | Inr q \<Rightarrow> Inr (q, h))
      else Inr (new_w, new_h))"

definition crop_window :: "int \<Rightarrow> int \<Rightarrow> int \<Rightarrow> int \<Rightarrow> py_error + (int \<times> int)" where
  "crop_window w h asked_width asked_height =
     (case width_ratio_larger w h asked_width asked_height of
        Inl e \<Rightarrow> Inl e
      | Inr wider \<Rightarrow>
          (case clamp_width w
                  (if wider then (w, (asked_height * w) div asked_width)
                   else ((asked_width * h) div asked_height, h)) of
             Inl e \<Rightarrow> Inl e
           | Inr nw \<Rightarrow> clamp_height h nw))"

text \<open>
  The placement of the crop (lines 130 to 139). \<^verbatim>\<open>center_x\<close> is the float 0.5 and
  \<^verbatim>\<open>center_y\<close> is 0.5, or the integer 0 or 1; the products are exact for every image
  Pillow can hold (sides below \<open>2\<^sup>3\<^sup>1\<close>).
\<close>

definition crop_box :: "int \<Rightarrow> int \<Rightarrow> int \<Rightarrow> int \<Rightarrow> string \<Rightarrow> rat \<times> rat \<times> rat \<times> rat" where
  "crop_box w h new_w new_h crop =
     (let center_x = 1 / 2;
          center_y = (if crop = ''top'' then 0 else if crop = ''bottom'' then 1 else 1 / 2);
          x_offset = of_int (w - new_w) * center_x;
          h_offset = of_int (h - new_h) * center_y
      in (x_offset, h_offset, x_offset + of_int new_w, h_offset + of_int new_h))"

text \<open>The resize block (lines 107 to 141).\<close>

definition crop_step ::
  "string option \<Rightarrow> int \<times> int \<Rightarrow> pil_image \<Rightarrow> py_error + pil_image" where
  "crop_step crop asked img =
     (if truthy_str crop then
        (let (w, h) = im_size img; (asked_width, asked_height) = asked in
         case crop_window w h asked_width asked_height of
           Inl e \<Rightarrow> Inl e
         | Inr (new_w, new_h) \<Rightarrow>
             Inr (pil_crop img (crop_box w h new_w new_h (the crop))))
      else Inr img)"

definition resize_step ::
  "(int \<times> int) option \<Rightarrow> string option \<Rightarrow> pil_image \<Rightarrow> py_error + pil_image" where
  "resize_step size_arg crop img =
     (case size_arg of
        None \<Rightarrow> Inr img
      | Some sz \<Rightarrow>
          if fst sz = 0 \<and> snd sz = 0 then Inr img
          else
            (case asked_size (im_size img) sz of
               Inl e \<Rightarrow> Inl e
             | Inr asked \<Rightarrow>
                 (case crop_step crop asked img of
                    Inl e \<Rightarrow> Inl e
                  | Inr img \<Rightarrow> Inr (pil_thumbnail img asked))))"

text \<open>
  The colorize block (lines 143 to 148); \<open>draws\<close> are the generator's three raw outputs
  behind the three \<^verbatim>\<open>randrange(32, 224, 24)\<close> calls.
\<close>

definition random_color :: "nat \<times> nat \<times> nat \<Rightarrow> int \<times> int \<times> int" where
  "random_color draws =
     (let (r1, r2, r3) = draws in
      (randrange r1 32 224 24, randrange r2 32 224 24, randrange r3 32 224 24))"

definition colorize_step :: "nat \<times> nat \<times> nat \<Rightarrow> pil_image \<Rightarrow> pil_image" where
  "colorize_step draws original =
     (let color = random_color draws;
          img = Image_new ''RGB'' (im_size original);
          img = pil_paste_color img color
                    (0, 0, fst (im_size original), snd (im_size original));
          img = pil_paste_masked img original original
      in img)"

text \<open>
  The format-specific options (lines 150 to 164). \<^verbatim>\<open>alpha\<close> is \<^verbatim>\<open>False\<close> or a band; a
  Pillow image is always truthy.
\<close>

definition png_step :: "pil_image \<Rightarrow> pil_image" where
  "png_step img0 =
     (let alpha =
            (if im_mode img0 \<in> set [''RGBA'', ''LA'']
                \<or> (im_mode img0 = ''P'' \<and> im_transparency img0)
             then Some (AlphaBand (Convert ''RGBA'' (im_pixels img0))) else None);
          img = (if im_mode img0 \<noteq> ''P''
                   then pil_convert_web (pil_convert ''RGBA'' img0) else img0)
      in case alpha of None \<Rightarrow> img | Some a \<Rightarrow> pil_putalpha img a)"

definition format_step ::
  "string \<Rightarrow> int \<Rightarrow> pil_image \<Rightarrow> (string \<rightharpoonup> py_value) \<Rightarrow>
     pil_image \<times> (string \<rightharpoonup> py_value)" where
  "format_step output_format quality img opt =
     (let (img, opt) =
            (if output_format = ''PNG''
             then (png_step img, opt(''optimize'' \<mapsto> VBool True)) else (img, opt));
          opt = (if output_format = ''JPEG''
                 then (opt(''optimize'' \<mapsto> VBool True))(''quality'' \<mapsto> VInt quality)
                 else opt);
          opt = (if output_format = ''GIF'' then opt(''optimize'' \<mapsto> VBool True) else opt)
      in (img, opt))"

text \<open>The mode normalisation (lines 166 and 167).\<close>

definition normalise_mode :: "string \<Rightarrow> pil_image \<Rightarrow> pil_image" where
  "normalise_mode output_format img =
     (if im_mode img \<notin> set [''1'', ''L'', ''P'', ''RGB'', ''RGBA'']
         \<or> (output_format = ''JPEG'' \<and> im_mode img = ''RGBA'')
      then pil_convert ''RGB'' img else img)"

text \<open>
  \<^verbatim>\<open>image_process\<close> (lines 35 to 169). Besides the Python arguments it takes the library
  and the three random draws.
\<close>

definition image_process ::
  "library \<Rightarrow> nat \<times> nat \<times> nat \<Rightarrow> py_source \<Rightarrow> (int \<times> int) option \<Rightarrow> bool \<Rightarrow> int \<Rightarrow>
     string option \<Rightarrow> bool \<Rightarrow> string option \<Rightarrow> py_error + py_result" where
  "image_process lib draws base64_source size_arg verify_resolution quality crop colorize
       output_format =
     (if \<not> truthy_source base64_source then Inr RFalse
      else if first_is_P base64_source then Inr (RSource base64_source)
      else
        (case base64_to_image lib base64_source of
           Inl e \<Rightarrow> Inl e
         | Inr img \<Rightarrow>
             (case check_resolution lib verify_resolution img of
                Inl e \<Rightarrow> Inl e
              | Inr _ \<Rightarrow>
                  (case resolve_output_format output_format img of
                     Inl e \<Rightarrow> Inl e
                   | Inr output_format \<Rightarrow>
                       (case resize_step size_arg crop img of
                          Inl e \<Rightarrow> Inl e
                        | Inr img \<Rightarrow>
                            (let opt = [''format'' \<mapsto> VStr output_format];
                                 img = (if colorize then colorize_step draws img
                                          else img);
                                 (img, opt) = format_step output_format quality img opt;
                                 img = normalise_mode output_format img
                             in Inr (REncoded img opt)))))))"

text \<open>
  An image and a library to run the module on: the library decodes every source to the
  given image and translates nothing.
\<close>

definition example_image :: "int \<times> int \<Rightarrow> string \<Rightarrow> string \<Rightarrow> pil_image" where
  "example_image sz fmt mode =
     \<lparr>im_size = sz, im_format = Some fmt, im_mode = mode, im_transparency = False,
      im_pixels = FromFile ''raw''\<rparr>"

definition example_library :: "pil_image \<Rightarrow> library" where
  "example_library img =
     \<lparr>b64decode = (\<lambda>s. Inr ''raw''), Image_open = (\<lambda>raw. Inr img), gettext = (\<lambda>t. t)\<rparr>"

section \<open>Stepping through \<^verbatim>\<open>image_process\<close>\<close>

lemma example_decode [simp]: "base64_to_image (example_library img) s = Inr img"
  by (simp add: base64_to_image_def example_library_def)

lemma gettext_example [simp]: "gettext (example_library img) t = t"
  by (simp add: example_library_def)

lemma upper_examples:
  "upper ''bmp'' = ''BMP''" "upper ''png'' = ''PNG''" "upper ''PNG'' = ''PNG''"
  "upper ''JPEG'' = ''JPEG''" "upper ''webp'' = ''WEBP''" "upper ''GIF'' = ''GIF''"
  by code_simp+

lemma upper_BMP: "upper ''BMP'' = ''BMP''"
  by code_simp

text \<open>Once the source is decoded, the function is the chain of its blocks.\<close>

lemma image_process_decoded:
  assumes "truthy_source src" "\<not> first_is_P src" "base64_to_image lib src = Inr img"
  shows "image_process lib draws src sz v q crop col fmt =
     (case check_resolution lib v img of
        Inl e \<Rightarrow> Inl e
      | Inr u \<Rightarrow>
          (case resolve_output_format fmt img of
             Inl e \<Rightarrow> Inl e
           | Inr f \<Rightarrow>
               (case resize_step sz crop img of
                  Inl e \<Rightarrow> Inl e
                | Inr img2 \<Rightarrow>
                    Inr (REncoded
                      (normalise_mode f (fst (format_step f q
                          (if col then colorize_step draws img2 else img2)
                          [''format'' \<mapsto> VStr f])))
                      (snd (format_step f q
                          (if col then colorize_step draws img2 else img2)
                          [''format'' \<mapsto> VStr f]))))))"
  using assms
  by (simp add: image_process_def Let_def split: sum.splits prod.splits)

text \<open>What each block can raise.\<close>

lemma py_floordiv_error: "py_floordiv a b = Inl e \<Longrightarrow> e = ZeroDivisionError"
  by (simp add: py_floordiv_def split: if_splits)

lemma py_truediv_error: "py_truediv a b = Inl e \<Longrightarrow> e = ZeroDivisionError \<or> e = OverflowError"
  by (auto simp add: py_truediv_def Let_def split: if_splits)

lemma asked_size_error: "asked_size wh sz = Inl e \<Longrightarrow> e = ZeroDivisionError"
  by (auto simp add: asked_size_def Let_def split: prod.splits if_splits sum.splits
      dest: py_floordiv_error)

lemma width_ratio_larger_error:
  "width_ratio_larger w h aw ah = Inl e \<Longrightarrow> e = ZeroDivisionError \<or> e = OverflowError"
  by (auto simp add: width_ratio_larger_def split: sum.splits dest: py_truediv_error)

lemma clamp_width_error: "clamp_width w nw = Inl e \<Longrightarrow> e = ZeroDivisionError"
  by (auto simp add: clamp_width_def split: prod.splits if_splits sum.splits
      dest: py_floordiv_error)

lemma clamp_height_error: "clamp_height h nw = Inl e \<Longrightarrow> e = ZeroDivisionError"
  by (auto simp add: clamp_height_def split: prod.splits if_splits sum.splits
      dest: py_floordiv_error)

lemma crop_window_error:
  "crop_window w h aw ah = Inl e \<Longrightarrow> e = ZeroDivisionError \<or> e = OverflowError"
  by (auto simp add: crop_window_def split: sum.splits
      dest: width_ratio_larger_error clamp_width_error clamp_height_error)

lemma crop_step_error:
  "crop_step crop asked img = Inl e \<Longrightarrow> e = ZeroDivisionError \<or> e = OverflowError"
  by (auto simp add: crop_step_def Let_def split: if_splits prod.splits sum.splits
      dest: crop_window_error)

lemma resize_step_error:
  "resize_step sz crop img = Inl e \<Longrightarrow> e = ZeroDivisionError \<or> e = OverflowError"
  by (auto simp add: resize_step_def split: option.splits if_splits sum.splits
      dest: asked_size_error crop_step_error)

lemma resolve_output_format_error:
  "resolve_output_format fmt img = Inl e \<Longrightarrow> e = AttributeError"
  by (auto simp add: resolve_output_format_def Let_def split: option.splits if_splits)

text \<open>The guard compares an integer with the float \<open>45e6\<close>; Python does so exactly.\<close>

lemma exceeds_limit_iff:
  "(IMAGE_MAX_RESOLUTION < of_int n) = (45000000 < n)"
proof -
  have "((of_int 45000000 :: rat) < of_int n) = (45000000 < n)"
    by (rule of_int_less_iff)
  then show ?thesis by (simp add: IMAGE_MAX_RESOLUTION_def)
qed

lemma check_resolution_cases:
  "check_resolution lib v img =
     (if v \<and> fst (im_size img) * snd (im_size img) > 45000000
      then Inl (ValueError (gettext lib resolution_message) (9 / 2)) else Inr ())"
proof -
  have "IMAGE_MAX_RESOLUTION / (10 * 10 ^ 6) = 9 / 2"
    by (simp add: IMAGE_MAX_RESOLUTION_def)
  then show ?thesis
    by (simp add: check_resolution_def exceeds_limit_iff split: prod.splits
        del: of_int_mult)
qed

text \<open>The option dictionary: which keys the format block writes.\<close>

lemma format_step_format:
  "snd (format_step f q img opt) ''format'' = opt ''format''"
  by (simp add: format_step_def Let_def split: prod.splits)

lemma format_step_quality:
  "f \<noteq> ''JPEG'' \<Longrightarrow> format_step f q1 img opt = format_step f q2 img opt"
  by (simp add: format_step_def Let_def)

lemma format_step_quality_key:
  "snd (format_step f q img opt) ''quality''
     = (if f = ''JPEG'' then Some (VInt q) else opt ''quality'')"
  by (simp add: format_step_def Let_def)

section \<open>Early returns\<close>

text \<open>
  C9: an empty or falsy source (\<^verbatim>\<open>None\<close>, \<^verbatim>\<open>False\<close>, empty bytes, empty string) makes
  \<^verbatim>\<open>image_process\<close> return \<^verbatim>\<open>False\<close>, not an error, whatever the library, the random draws
  and the options \<^verbatim>\<open>size\<close>, \<^verbatim>\<open>verify_resolution\<close>, \<^verbatim>\<open>quality\<close>, \<^verbatim>\<open>crop\<close>, \<^verbatim>\<open>colorize\<close> and
  \<^verbatim>\<open>output_format\<close> are.
\<close>

theorem falsy_source_returns_False:
  assumes "\<not> truthy_source base64_source"
  shows "image_process lib draws base64_source size_arg verify_resolution quality crop
           colorize output_format = Inr RFalse"
  using assms by (simp add: image_process_def)

theorem falsy_source_returns_False_witness:
  "\<not> truthy_source (PyBytes [])
   \<and> image_process (example_library (example_image (300, 300) ''JPEG'' ''RGB'')) (0, 1, 2)
        (PyBytes []) (Some (100, 200)) True 80 (Some ''top'') True (Some ''PNG'')
       = Inr RFalse"
  using falsy_source_returns_False [where base64_source = "PyBytes []"
      and lib = "example_library (example_image (300, 300) ''JPEG'' ''RGB'')"
      and draws = "(0, 1, 2)" and size_arg = "Some (100, 200)" and verify_resolution = True
      and quality = 80 and crop = "Some ''top''" and colorize = True
      and output_format = "Some ''PNG''"]
  by simp

text \<open>
  C8: a bytes source whose first byte is \<^verbatim>\<open>P\<close> (the base64 of an SVG document starts so)
  is returned as it is, whatever the library, the random draws and the options are:
  nothing is decoded or transformed.
\<close>

theorem svg_source_returned_unchanged:
  assumes "first_is_P base64_source"
  shows "image_process lib draws base64_source size_arg verify_resolution quality crop
           colorize output_format = Inr (RSource base64_source)"
proof -
  from assms obtain b where b: "base64_source = PyBytes b" "take 1 b = ''P''"
    by (cases base64_source) auto
  then have "b \<noteq> []" by auto
  with b assms show ?thesis by (simp add: image_process_def)
qed

theorem svg_source_returned_unchanged_witness:
  "first_is_P (PyBytes ''PHN2Zz4='')
   \<and> image_process (example_library (example_image (300, 300) ''JPEG'' ''RGB'')) (0, 1, 2)
        (PyBytes ''PHN2Zz4='') (Some (100, 200)) True 80 (Some ''top'') True (Some ''PNG'')
       = Inr (RSource (PyBytes ''PHN2Zz4=''))"
  using svg_source_returned_unchanged [where base64_source = "PyBytes ''PHN2Zz4=''"
      and lib = "example_library (example_image (300, 300) ''JPEG'' ''RGB'')"
      and draws = "(0, 1, 2)" and size_arg = "Some (100, 200)" and verify_resolution = True
      and quality = 80 and crop = "Some ''top''" and colorize = True
      and output_format = "Some ''PNG''"]
  by simp

section \<open>The resolution guard\<close>

text \<open>
  C5: for a non-empty source that is not SVG and decodes to an image of \<open>w \<times> h\<close> pixels,
  \<^verbatim>\<open>image_process\<close> raises a \<^verbatim>\<open>ValueError\<close> exactly when \<^verbatim>\<open>verify_resolution\<close> is set and
  \<open>w * h > 45,000,000\<close>; the error is then the ``Image size excessive'' message with the
  limit reported as \<open>IMAGE_MAX_RESOLUTION / 10,000,000 = 4.5\<close> million pixels. With
  \<^verbatim>\<open>verify_resolution\<close> unset no such error is raised, whatever the size.
\<close>

theorem resolution_guard:
  assumes "truthy_source base64_source" and "\<not> first_is_P base64_source"
    and "base64_to_image lib base64_source = Inr img" and "im_size img = (w, h)"
  shows "((\<exists>t x. image_process lib draws base64_source size_arg verify_resolution quality
                crop colorize output_format = Inl (ValueError t x))
            = (verify_resolution \<and> w * h > 45000000))
       \<and> ((image_process lib draws base64_source size_arg verify_resolution quality
                crop colorize output_format
              = Inl (ValueError (gettext lib resolution_message)
                       (IMAGE_MAX_RESOLUTION / 10000000)))
            = (verify_resolution \<and> w * h > 45000000))
       \<and> IMAGE_MAX_RESOLUTION / 10000000 = 9 / 2"
proof -
  let ?run = "image_process lib draws base64_source size_arg verify_resolution quality
                crop colorize output_format"
  have nine: "IMAGE_MAX_RESOLUTION / 10000000 = 9 / 2"
    by (simp add: IMAGE_MAX_RESOLUTION_def)
  show ?thesis
  proof (cases "verify_resolution \<and> w * h > 45000000")
    case True
    then have run: "?run = Inl (ValueError (gettext lib resolution_message) (9 / 2))"
      using assms by (simp add: image_process_decoded check_resolution_cases)
    then have "\<exists>t x. ?run = Inl (ValueError t x)" by blast
    with True nine run show ?thesis by simp
  next
    case False
    then have chk: "check_resolution lib verify_resolution img = Inr ()"
      using assms by (auto simp add: check_resolution_cases)
    have "?run \<noteq> Inl (ValueError t x)" for t x
      using assms chk
      by (auto simp add: image_process_decoded split: sum.splits
          dest: resolve_output_format_error resize_step_error)
    with False nine show ?thesis by simp
  qed
qed

theorem resolution_guard_witness:
  "image_process (example_library (example_image (9000, 6000) ''JPEG'' ''RGB'')) (0, 1, 2)
        (PyBytes ''/9j/4AAQ'') None True 80 None False None
      = Inl (ValueError resolution_message (9 / 2))
   \<and> (\<forall>t x. image_process (example_library (example_image (9000, 6000) ''JPEG'' ''RGB''))
          (0, 1, 2) (PyBytes ''/9j/4AAQ'') None False 80 None False None
        \<noteq> Inl (ValueError t x))"
  using resolution_guard [where base64_source = "PyBytes ''/9j/4AAQ''"
      and lib = "example_library (example_image (9000, 6000) ''JPEG'' ''RGB'')"
      and img = "example_image (9000, 6000) ''JPEG'' ''RGB''" and w = 9000 and h = 6000
      and draws = "(0, 1, 2)" and size_arg = None and verify_resolution = True
      and quality = 80 and crop = None and colorize = False and output_format = None]
    resolution_guard [where base64_source = "PyBytes ''/9j/4AAQ''"
      and lib = "example_library (example_image (9000, 6000) ''JPEG'' ''RGB'')"
      and img = "example_image (9000, 6000) ''JPEG'' ''RGB''" and w = 9000 and h = 6000
      and draws = "(0, 1, 2)" and size_arg = None and verify_resolution = False
      and quality = 80 and crop = None and colorize = False and output_format = None]
  by (simp add: example_image_def)

section \<open>The output format\<close>

text \<open>
  C7: for a non-empty source that is not SVG, whenever \<^verbatim>\<open>image_process\<close> returns, the
  format it encodes with is \<^verbatim>\<open>output_format\<close> when that is given (not \<^verbatim>\<open>None\<close>, not empty),
  otherwise the format of the decoded image, uppercased; \<^verbatim>\<open>BMP\<close> becomes \<^verbatim>\<open>PNG\<close>, and
  anything that is then not \<^verbatim>\<open>PNG\<close>, \<^verbatim>\<open>JPEG\<close> or \<^verbatim>\<open>GIF\<close> becomes \<^verbatim>\<open>JPEG\<close>.
\<close>

theorem output_format_resolution:
  assumes "truthy_source base64_source" and "\<not> first_is_P base64_source"
    and "base64_to_image lib base64_source = Inr img"
    and "image_process lib draws base64_source size_arg verify_resolution quality crop
           colorize output_format = Inr r"
  shows "\<exists>f img' opt.
           (if truthy_str output_format then output_format else im_format img) = Some f
         \<and> r = REncoded img' opt
         \<and> opt ''format'' = Some (VStr
              (if upper f = ''BMP'' then ''PNG''
               else if upper f \<in> {''PNG'', ''JPEG'', ''GIF''} then upper f
               else ''JPEG''))"
  using assms
  by (auto simp add: image_process_decoded format_step_format resolve_output_format_def
      Let_def split: sum.splits option.splits if_splits)

theorem output_format_resolution_witness:
  "\<exists>img' opt.
      image_process (example_library (example_image (300, 300) ''BMP'' ''RGB'')) (0, 1, 2)
        (PyBytes ''Qk02'') None False 80 None False None = Inr (REncoded img' opt)
    \<and> opt ''format'' = Some (VStr ''PNG'')"
proof -
  let ?img = "example_image (300, 300) ''BMP'' ''RGB''"
  let ?run = "image_process (example_library ?img) (0, 1, 2) (PyBytes ''Qk02'') None False 80
                None False None"
  have "\<exists>r. ?run = Inr r"
    by (simp add: image_process_decoded check_resolution_cases resolve_output_format_def
        resize_step_def example_image_def upper_BMP Let_def)
  then obtain r where r: "?run = Inr r" by blast
  have "truthy_source (PyBytes ''Qk02'')" and "\<not> first_is_P (PyBytes ''Qk02'')"
    and "base64_to_image (example_library ?img) (PyBytes ''Qk02'') = Inr ?img"
    by simp_all
  from output_format_resolution [OF this r]
  show ?thesis using r by (auto simp add: example_image_def upper_BMP)
qed

section \<open>The quality option\<close>

text \<open>
  C10: when the resolved output format is not \<^verbatim>\<open>JPEG\<close>, the result of \<^verbatim>\<open>image_process\<close>
  does not depend on \<^verbatim>\<open>quality\<close>: two runs that differ only in that argument return the
  same value (the same image saved with the same options, or the same error).
\<close>

theorem quality_ignored_unless_JPEG:
  assumes "\<And>img. base64_to_image lib base64_source = Inr img \<Longrightarrow>
             resolve_output_format output_format img \<noteq> Inr ''JPEG''"
  shows "image_process lib draws base64_source size_arg verify_resolution q1 crop colorize
           output_format
       = image_process lib draws base64_source size_arg verify_resolution q2 crop colorize
           output_format"
proof (cases "base64_to_image lib base64_source")
  case (Inl e)
  then show ?thesis by (simp add: image_process_def)
next
  case (Inr img)
  show ?thesis
  proof (cases "resolve_output_format output_format img")
    case (Inl e)
    with Inr show ?thesis by (simp add: image_process_def split: sum.splits)
  next
    case f: (Inr f)
    with assms [OF Inr] have "f \<noteq> ''JPEG''" by simp
    then have "format_step f q1 i opt = format_step f q2 i opt" for i opt
      by (rule format_step_quality)
    with Inr f show ?thesis by (simp add: image_process_def split: sum.splits)
  qed
qed

theorem quality_ignored_unless_JPEG_witness:
  "image_process (example_library (example_image (300, 300) ''PNG'' ''RGBA'')) (0, 1, 2)
      (PyBytes ''iVBORw0K'') (Some (100, 0)) False 1 None False None
   = image_process (example_library (example_image (300, 300) ''PNG'' ''RGBA'')) (0, 1, 2)
      (PyBytes ''iVBORw0K'') (Some (100, 0)) False 95 None False None"
proof (rule quality_ignored_unless_JPEG)
  fix img
  assume "base64_to_image (example_library (example_image (300, 300) ''PNG'' ''RGBA''))
            (PyBytes ''iVBORw0K'') = Inr img"
  then have "img = example_image (300, 300) ''PNG'' ''RGBA''" by simp
  then show "resolve_output_format None img \<noteq> Inr ''JPEG''"
    by (simp add: resolve_output_format_def example_image_def upper_examples)
qed

section \<open>The background colour\<close>

lemma randrange_channel: "randrange r 32 224 24 = 32 + 24 * (int r mod 8)"
  by (simp add: randrange_def)

text \<open>
  C6, as stated, has each channel drawn from \<open>{32, 56, ..., 224}\<close> with both bounds
  included. The stop of \<^verbatim>\<open>randrange(32, 224, 24)\<close> is exclusive: no draw gives 224.
\<close>

theorem colorize_never_224: "\<not> (\<exists>r. randrange r 32 224 24 = 224)"
proof
  assume "\<exists>r. randrange r 32 224 24 = 224"
  then obtain r where "32 + 24 * (int r mod 8) = 224"
    by (auto simp add: randrange_channel)
  moreover have "int r mod 8 < 8" by simp
  ultimately show False by linarith
qed

text \<open>
  C6, amended: with \<^verbatim>\<open>colorize\<close> set, each of the three channels of the background colour
  comes from its own draw and lies in \<open>{32, 56, ..., 200}\<close> (step 24, eight values, one per
  residue of the draw, so every one of them occurs); a canvas of mode \<^verbatim>\<open>RGB\<close> and of the
  size of the image is filled with that colour over its whole area, and the image is
  pasted on it with itself as the mask. The result is an \<^verbatim>\<open>RGB\<close> image of the same size.
\<close>

theorem colorize_background:
  "(\<forall>r. randrange r 32 224 24 \<in> {32, 56, 80, 104, 128, 152, 176, 200})
   \<and> (\<forall>v \<in> {32, 56, 80, 104, 128, 152, 176, 200}. \<exists>r < 8. randrange r 32 224 24 = v)
   \<and> random_color (r1, r2, r3)
       = (32 + 24 * (int r1 mod 8), 32 + 24 * (int r2 mod 8), 32 + 24 * (int r3 mod 8))
   \<and> colorize_step draws original
       = \<lparr>im_size = im_size original, im_format = None, im_mode = ''RGB'',
          im_transparency = False,
          im_pixels = PasteMasked (im_pixels original) (im_pixels original)
            (PasteColor (random_color draws)
               (0, 0, fst (im_size original), snd (im_size original))
               (NewImage ''RGB'' (im_size original)))\<rparr>"
proof -
  have a: "randrange r 32 224 24 \<in> {32, 56, 80, 104, 128, 152, 176, 200}" for r
  proof -
    have "0 \<le> int r mod 8" "int r mod 8 < 8" by simp_all
    then have "int r mod 8 \<in> {0, 1, 2, 3, 4, 5, 6, 7}" by auto
    then show ?thesis unfolding randrange_channel by auto
  qed
  have b: "\<exists>r < 8. randrange r 32 224 24 = v"
    if "v \<in> {32, 56, 80, 104, 128, 152, 176, 200}" for v
  proof -
    have "randrange 0 32 224 24 = 32" "randrange 1 32 224 24 = 56"
      "randrange 2 32 224 24 = 80" "randrange 3 32 224 24 = 104"
      "randrange 4 32 224 24 = 128" "randrange 5 32 224 24 = 152"
      "randrange 6 32 224 24 = 176" "randrange 7 32 224 24 = 200"
      by (simp_all add: randrange_channel)
    moreover have "(0::nat) < 8" "(1::nat) < 8" "(2::nat) < 8" "(3::nat) < 8" "(4::nat) < 8"
      "(5::nat) < 8" "(6::nat) < 8" "(7::nat) < 8" by simp_all
    ultimately show ?thesis using that by (elim insertE emptyE) blast+
  qed
  have c: "random_color (r1, r2, r3)
       = (32 + 24 * (int r1 mod 8), 32 + 24 * (int r2 mod 8), 32 + 24 * (int r3 mod 8))"
    by (simp add: random_color_def randrange_channel)
  have d: "colorize_step draws original
       = \<lparr>im_size = im_size original, im_format = None, im_mode = ''RGB'',
          im_transparency = False,
          im_pixels = PasteMasked (im_pixels original) (im_pixels original)
            (PasteColor (random_color draws)
               (0, 0, fst (im_size original), snd (im_size original))
               (NewImage ''RGB'' (im_size original)))\<rparr>"
    by (simp add: colorize_step_def Let_def Image_new_def pil_paste_color_def
        pil_paste_masked_def)
  from a b c d show ?thesis by blast
qed

theorem colorize_background_witness:
  "random_color (0, 9, 15) = (32, 56, 200)
   \<and> colorize_step (0, 9, 15) (example_image (300, 300) ''PNG'' ''RGBA'')
       = \<lparr>im_size = (300, 300), im_format = None, im_mode = ''RGB'',
          im_transparency = False,
          im_pixels = PasteMasked (FromFile ''raw'') (FromFile ''raw'')
            (PasteColor (32, 56, 200) (0, 0, 300, 300) (NewImage ''RGB'' (300, 300)))\<rparr>
   \<and> (\<exists>r < 8. randrange r 32 224 24 = 200)"
  using colorize_background [of 0 9 15 "(0, 9, 15)" "example_image (300, 300) ''PNG'' ''RGBA''"]
  by (simp add: example_image_def)

section \<open>True division\<close>

text \<open>
  The exponent brackets the quotient, rounding moves a number by at most half a unit in
  the last place, and so the quotient of two positive integers is returned with a
  relative error of at most \<open>2\<^sup>-\<^sup>5\<^sup>3\<close>.
\<close>

lemma two_powi_less_imp_less:
  assumes "(2::rat) powi m < 2 powi n"
  shows "m < n"
proof (rule ccontr)
  assume "\<not> m < n"
  then have "n \<le> m" by simp
  then have "(2::rat) powi n \<le> 2 powi m"
    by (rule power_int_increasing) simp
  with assms show False by simp
qed

lemma bitlen_rat_bounds:
  assumes "0 < a"
  shows "2 powi (bitlen a - 1) \<le> (of_int a :: rat)" and "(of_int a :: rat) < 2 powi bitlen a"
proof -
  from assms have pos: "1 \<le> bitlen a"
    using bitlen_eq_zero_iff [of a] bitlen_nonneg [of a] by linarith
  from bitlen_bounds [OF assms]
  have lo: "2 ^ nat (bitlen a - 1) \<le> a" and hi: "a < 2 ^ nat (bitlen a)" by simp_all
  have "(of_int (2 ^ nat (bitlen a - 1)) :: rat) \<le> of_int a"
    using lo by (simp only: of_int_le_iff)
  then show "2 powi (bitlen a - 1) \<le> (of_int a :: rat)"
    using pos by (simp add: power_int_nonneg_exp)
  have "(of_int a :: rat) < of_int (2 ^ nat (bitlen a))"
    using hi by (simp only: of_int_less_iff)
  then show "(of_int a :: rat) < 2 powi bitlen a"
    using pos by (simp add: power_int_nonneg_exp)
qed

lemma float_exponent_bracket:
  assumes "0 < a" and "0 < b"
  shows "2 powi float_exponent a b \<le> (of_int a / of_int b :: rat)"
    and "(of_int a / of_int b :: rat) < 2 powi (float_exponent a b + 1)"
proof -
  let ?a = "of_int a :: rat" and ?b = "of_int b :: rat"
  let ?d = "bitlen a - bitlen b"
  have a0: "0 < ?a" and b0: "0 < ?b" using assms by simp_all
  note A = bitlen_rat_bounds [OF assms(1)] and B = bitlen_rat_bounds [OF assms(2)]
  have lower: "2 powi (?d - 1) \<le> ?a / ?b"
  proof -
    have "2 powi (?d - 1) * ?b \<le> 2 powi (?d - 1) * 2 powi bitlen b"
      using B(2) by (intro mult_left_mono) simp_all
    also have "\<dots> = 2 powi (bitlen a - 1)"
      by (simp flip: power_int_add)
    also have "\<dots> \<le> ?a" by (rule A(1))
    finally show ?thesis using b0 by (simp add: pos_le_divide_eq)
  qed
  have upper: "?a / ?b < 2 powi (?d + 1)"
  proof -
    have "?a < 2 powi bitlen a" by (rule A(2))
    also have "\<dots> = 2 powi (?d + 1) * 2 powi (bitlen b - 1)"
      by (simp flip: power_int_add)
    also have "\<dots> \<le> 2 powi (?d + 1) * ?b"
      using B(1) by (intro mult_left_mono) simp_all
    finally show ?thesis using b0 by (simp add: pos_divide_less_eq)
  qed
  show "2 powi float_exponent a b \<le> ?a / ?b"
  proof (cases "?b * 2 powi ?d \<le> ?a")
    case True
    then have "2 powi ?d \<le> ?a / ?b"
      using b0 by (simp add: pos_le_divide_eq mult.commute)
    with True show ?thesis by (simp add: float_exponent_def)
  next
    case False
    with lower show ?thesis by (simp add: float_exponent_def)
  qed
  show "?a / ?b < 2 powi (float_exponent a b + 1)"
  proof (cases "?b * 2 powi ?d \<le> ?a")
    case True
    with upper show ?thesis by (simp add: float_exponent_def)
  next
    case False
    then have "?a / ?b < 2 powi ?d"
      using b0 by (simp add: pos_divide_less_eq mult.commute)
    with False show ?thesis by (simp add: float_exponent_def)
  qed
qed

lemma float_exponent_unique:
  assumes "2 powi e \<le> (x::rat)" and "x < 2 powi (e + 1)"
    and "2 powi e' \<le> x" and "x < 2 powi (e' + 1)"
  shows "e = e'"
proof -
  from assms(1,4) have "(2::rat) powi e < 2 powi (e' + 1)" by simp
  then have "e < e' + 1" by (rule two_powi_less_imp_less)
  moreover from assms(3,2) have "(2::rat) powi e' < 2 powi (e + 1)" by simp
  then have "e' < e + 1" by (rule two_powi_less_imp_less)
  ultimately show ?thesis by simp
qed

lemma py_round_error: "\<bar>of_int (py_round t) - t\<bar> \<le> 1 / 2"
proof -
  have "of_int \<lfloor>t\<rfloor> \<le> t" "t < of_int \<lfloor>t\<rfloor> + 1" by linarith+
  then show ?thesis
    by (auto simp add: py_round_def Let_def)
qed

lemma binary64_cong:
  assumes "0 < a" "0 < b" "0 < c" "0 < d" and "a * d = c * b"
  shows "binary64 a b = binary64 c d"
proof -
  have "(of_int a :: rat) * of_int d = of_int c * of_int b"
    using assms(5) by (metis of_int_mult)
  then have eq: "(of_int a / of_int b :: rat) = of_int c / of_int d"
    using assms by (simp add: frac_eq_eq)
  have "float_exponent a b = float_exponent c d"
    using float_exponent_bracket [OF assms(1,2)] float_exponent_bracket [OF assms(3,4)]
    unfolding eq by (rule float_exponent_unique)
  with eq show ?thesis by (simp add: binary64_def)
qed

lemma binary64_normal_error:
  assumes "0 < a" and "0 < b" and "2 powi (- 1022) \<le> (of_int a / of_int b :: rat)"
  shows "\<bar>binary64 a b - of_int a / of_int b\<bar> \<le> of_int a / of_int b * 2 powi (- 53)"
proof -
  define x :: rat where "x = of_int a / of_int b"
  define e where "e = float_exponent a b"
  define p where "p = e - 52"
  have br: "2 powi e \<le> x" "x < 2 powi (e + 1)"
    using float_exponent_bracket [OF assms(1,2)] by (simp_all add: x_def e_def)
  have "(2::rat) powi (- 1022) < 2 powi (e + 1)"
    using assms(3) br(2) unfolding x_def by (rule le_less_trans)
  then have "- 1022 < e + 1" by (rule two_powi_less_imp_less)
  then have pmax: "max (e - 52) (- 1074) = p" by (simp add: p_def)
  have F: "binary64 a b = of_int (py_round (x / 2 powi p)) * 2 powi p"
    using pmax by (simp add: binary64_def e_def [symmetric] x_def [symmetric])
  have pp: "(0::rat) < 2 powi p" by simp
  have "\<bar>binary64 a b - x\<bar> = \<bar>of_int (py_round (x / 2 powi p)) - x / 2 powi p\<bar> * 2 powi p"
  proof -
    have "binary64 a b - x = (of_int (py_round (x / 2 powi p)) - x / 2 powi p) * 2 powi p"
      using pp by (simp add: F left_diff_distrib)
    then show ?thesis using pp by (simp add: abs_mult)
  qed
  also have "\<dots> \<le> 1 / 2 * 2 powi p"
    using py_round_error pp by (intro mult_right_mono) simp_all
  also have "\<dots> = 2 powi e * 2 powi (- 53)"
  proof -
    have "(2::rat) powi p = 2 powi (e + (- 53) + 1)" by (simp add: p_def)
    also have "\<dots> = 2 powi (e + (- 53)) * 2" by (subst power_int_add_1) simp_all
    also have "\<dots> = 2 powi e * 2 powi (- 53) * 2" by (subst power_int_add) simp_all
    finally show ?thesis by simp
  qed
  also have "\<dots> \<le> x * 2 powi (- 53)"
    using br(1) by (intro mult_right_mono) simp_all
  finally show ?thesis by (simp add: x_def)
qed

lemma ulp_facts:
  shows "(0::rat) < 2 powi (- 53)" and "(2::rat) powi (- 53) * 2 ^ 53 = 1"
    and "(2::rat) powi (- 53) \<le> 1"
proof -
  show "(0::rat) < 2 powi (- 53)" by (rule zero_less_power_int) simp
  have "(2::rat) powi (- 53) * 2 powi 53 = 2 powi (- 53 + 53)"
    by (subst power_int_add) simp_all
  then show "(2::rat) powi (- 53) * 2 ^ 53 = 1" by simp
  have "(2::rat) powi (- 53) \<le> 2 powi 0" by (rule power_int_increasing) simp_all
  then show "(2::rat) powi (- 53) \<le> 1" by simp
qed

lemma quotient_normal:
  assumes "0 < a" and "0 < b" and "b \<le> 2 ^ 1022"
  shows "2 powi (- 1022) \<le> (of_int a / of_int b :: rat)"
proof -
  have b0: "(0::rat) < of_int b" using assms(2) by simp
  have "(of_int b :: rat) \<le> of_int (2 ^ 1022)" using assms(3) by (simp only: of_int_le_iff)
  then have b1: "(of_int b :: rat) \<le> 2 ^ 1022" by simp
  have "(2::rat) powi (- 1022) = 1 / 2 ^ 1022"
    by (simp add: power_int_minus_divide del: power_int_numeral_neg_numeral)
  also have "\<dots> \<le> 1 / of_int b"
    using b0 b1 by (intro divide_left_mono) simp_all
  also have "\<dots> \<le> of_int a / of_int b"
    using assms(1) b0 by (intro divide_right_mono) simp_all
  finally show ?thesis .
qed

lemma binary64_range:
  assumes "0 < a" and "0 < b" and "b \<le> 2 ^ 1022"
  shows "0 \<le> binary64 a b" and "binary64 a b \<le> 2 * of_int a"
proof -
  define x :: rat where "x = of_int a / of_int b"
  define u :: rat where "u = 2 powi (- 53)"
  have u: "0 < u" "u \<le> 1" using ulp_facts by (simp_all add: u_def)
  have x0: "0 < x" using assms by (simp add: x_def)
  have xa: "x \<le> of_int a"
  proof -
    have "(1::rat) \<le> of_int b" using assms(2) by simp
    then have "of_int a / of_int b \<le> (of_int a :: rat) / 1"
      using assms(1) by (intro divide_left_mono) simp_all
    then show ?thesis by (simp add: x_def)
  qed
  have err: "\<bar>binary64 a b - x\<bar> \<le> x * u"
    using binary64_normal_error [OF assms(1,2) quotient_normal [OF assms]]
    by (simp add: x_def u_def)
  have xu: "x * u \<le> x" using x0 u by (simp add: mult_le_cancel_left2)
  from err xu show "0 \<le> binary64 a b" by linarith
  from err xu xa show "binary64 a b \<le> 2 * of_int a" by linarith
qed

lemma py_truediv_positive:
  assumes "0 < a" and "0 < b" and "a < 2 ^ 1023" and "b \<le> 2 ^ 1022"
  shows "py_truediv a b = Inr (binary64 a b)"
proof -
  have "(of_int a :: rat) < of_int (2 ^ 1023)" using assms(3) by (simp only: of_int_less_iff)
  then have "2 * (of_int a :: rat) < 2 * 2 ^ 1023" by simp
  also have "\<dots> = (2::rat) ^ 1024" by simp
  finally have "binary64 a b < 2 ^ 1024"
    using binary64_range(2) [OF assms(1,2,4)] by linarith
  moreover note binary64_range(1) [OF assms(1,2,4)]
  ultimately have "\<not> 2 ^ 1024 \<le> \<bar>binary64 a b\<bar>" by linarith
  then show ?thesis
    using assms(1,2) by (simp add: py_truediv_def Let_def del: power_numeral)
qed

text \<open>
  Two quotients whose cross products differ and sum to less than \<open>2\<^sup>5\<^sup>3\<close> are further
  apart than the rounding can move them.
\<close>

lemma binary64_separates:
  assumes "0 < a" "0 < b" "0 < c" "0 < d"
    and "a * d < c * b" and "a * d + c * b < 2 ^ 53"
  shows "binary64 a b < binary64 c d"
proof -
  define x :: rat where "x = of_int a / of_int b"
  define y :: rat where "y = of_int c / of_int d"
  define u :: rat where "u = 2 powi (- 53)"
  have u: "0 < u" "u * 2 ^ 53 = 1" using ulp_facts by (simp_all add: u_def)
  have b0: "(0::rat) < of_int b" and d0: "(0::rat) < of_int d" using assms by simp_all
  have "0 < a * d" "0 < c * b" using assms by simp_all
  with assms(6) have "c * b < 2 ^ 53" "a * d < 2 ^ 53" by linarith+
  moreover have "b \<le> c * b" "d \<le> a * d" using assms by simp_all
  ultimately have "b < 2 ^ 53" "d < 2 ^ 53" by linarith+
  then have small: "b \<le> 2 ^ 1022" "d \<le> 2 ^ 1022" by simp_all
  have ex: "\<bar>binary64 a b - x\<bar> \<le> x * u"
    using binary64_normal_error [OF assms(1,2) quotient_normal [OF assms(1,2) small(1)]]
    by (simp add: x_def u_def)
  have ey: "\<bar>binary64 c d - y\<bar> \<le> y * u"
    using binary64_normal_error [OF assms(3,4) quotient_normal [OF assms(3,4) small(2)]]
    by (simp add: y_def u_def)
  have bd: "(0::rat) < of_int b * of_int d" using b0 d0 by simp
  have sum: "x + y = of_int (a * d + c * b) / (of_int b * of_int d)"
    using b0 d0 by (simp add: x_def y_def add_frac_eq)
  have diff: "y - x = of_int (c * b - a * d) / (of_int b * of_int d)"
    using b0 d0 by (simp add: x_def y_def diff_frac_eq mult.commute)
  have "(of_int (a * d + c * b) :: rat) < of_int (2 ^ 53)"
    using assms(6) by (simp only: of_int_less_iff)
  then have "(of_int (a * d + c * b) :: rat) < 2 ^ 53" by simp
  then have "u * of_int (a * d + c * b) < u * 2 ^ 53"
    using u(1) by (simp only: mult_less_cancel_left_pos)
  then have one: "u * of_int (a * d + c * b) < 1" using u(2) by simp
  have "1 \<le> c * b - a * d" using assms(5) by simp
  then have "(of_int 1 :: rat) \<le> of_int (c * b - a * d)" by (simp only: of_int_le_iff)
  with one have "u * of_int (a * d + c * b) < (of_int (c * b - a * d) :: rat)" by simp
  then have "u * of_int (a * d + c * b) / (of_int b * of_int d)
      < (of_int (c * b - a * d) :: rat) / (of_int b * of_int d)"
    using bd by (simp only: divide_strict_right_mono)
  then have "u * (x + y) < y - x" by (simp only: sum diff times_divide_eq_right)
  then have "x + x * u < y - y * u" by (simp add: algebra_simps)
  with ex ey show ?thesis by linarith
qed

lemma float_comparison_exact:
  assumes "0 < w" "0 < h" "0 < asked_width" "0 < asked_height"
    and "w * asked_height + h * asked_width < 2 ^ 53"
  shows "(binary64 w asked_width > binary64 h asked_height)
       = (w * asked_height > h * asked_width)"
proof -
  consider "h * asked_width < w * asked_height" | "h * asked_width = w * asked_height"
    | "w * asked_height < h * asked_width" by linarith
  then show ?thesis
  proof cases
    case 1
    have "binary64 h asked_height < binary64 w asked_width"
      using assms 1 by (intro binary64_separates) (simp_all add: add.commute)
    with 1 show ?thesis by simp
  next
    case 2
    have "binary64 h asked_height = binary64 w asked_width"
      using assms 2 by (intro binary64_cong) simp_all
    with 2 show ?thesis by simp
  next
    case 3
    have "binary64 w asked_width < binary64 h asked_height"
      using assms 3 by (intro binary64_separates) simp_all
    with 3 show ?thesis by simp
  qed
qed

section \<open>The branch of the crop\<close>

lemma binary64_tie:
  "binary64 1 18014398509481984 = 1 / 18014398509481984"
  "binary64 1 18014398509481985 = 1 / 18014398509481984"
  by code_simp+

lemma py_truediv_tie:
  "py_truediv 1 18014398509481984 = Inr (1 / 18014398509481984)"
  "py_truediv 1 18014398509481985 = Inr (1 / 18014398509481984)"
  by (simp_all add: py_truediv_def binary64_tie)

text \<open>
  C2, as stated, has the branch decided by the exact comparison
  \<open>w * askedHeight > h * askedWidth\<close> for all positive sizes. The module compares two
  floats: \<open>1 / 2\<^sup>5\<^sup>4\<close> and \<open>1 / (2\<^sup>5\<^sup>4 + 1)\<close> round to the same double, so for a
  \<open>1 \<times> 1\<close> image and the target \<open>(2\<^sup>5\<^sup>4, 2\<^sup>5\<^sup>4 + 1)\<close> the width ratio is larger but the
  module takes the other branch (and the crop window is \<open>0 \<times> 1\<close>).
\<close>

theorem branch_differs_from_cross_multiplication:
  "width_ratio_larger 1 1 (2 ^ 54) (2 ^ 54 + 1) = Inr False
   \<and> (1 * (2 ^ 54 + 1) > (1::int) * 2 ^ 54)
   \<and> crop_window 1 1 (2 ^ 54) (2 ^ 54 + 1) = Inr (0, 1)"
  by (simp add: crop_window_def width_ratio_larger_def py_truediv_tie clamp_width_def
      clamp_height_def py_floordiv_def)

text \<open>
  C2, amended: for positive sizes with \<open>w * askedHeight + h * askedWidth < 2\<^sup>5\<^sup>3\<close> (in
  particular whenever all four numbers are below \<open>2\<^sup>2\<^sup>6\<close>), the float comparison of line 117
  raises nothing and agrees with the exact comparison \<open>w * askedHeight > h * askedWidth\<close>,
  so the crop window is the one of the branch that cross-multiplication selects.
\<close>

theorem branch_agrees_with_cross_multiplication:
  assumes "0 < w" "0 < h" "0 < asked_width" "0 < asked_height"
    and "w * asked_height + h * asked_width < 2 ^ 53"
  shows "width_ratio_larger w h asked_width asked_height
           = Inr (w * asked_height > h * asked_width)
       \<and> crop_window w h asked_width asked_height
           = (case clamp_width w
                     (if w * asked_height > h * asked_width
                      then (w, (asked_height * w) div asked_width)
                      else ((asked_width * h) div asked_height, h)) of
                Inl e \<Rightarrow> Inl e
              | Inr nw \<Rightarrow> clamp_height h nw)"
proof -
  have "0 < w * asked_height" "0 < h * asked_width" using assms by simp_all
  with assms(5) have p: "w * asked_height < 2 ^ 53" "h * asked_width < 2 ^ 53" by linarith+
  have "w \<le> w * asked_height" "asked_height \<le> w * asked_height"
    "h \<le> h * asked_width" "asked_width \<le> h * asked_width"
    using assms by simp_all
  with p have "w < 2 ^ 53" "asked_height < 2 ^ 53" "h < 2 ^ 53" "asked_width < 2 ^ 53"
    by linarith+
  then have "w < 2 ^ 1023" "h < 2 ^ 1023" "asked_width \<le> 2 ^ 1022" "asked_height \<le> 2 ^ 1022"
    by simp_all
  then have "py_truediv w asked_width = Inr (binary64 w asked_width)"
    and "py_truediv h asked_height = Inr (binary64 h asked_height)"
    using assms by (simp_all add: py_truediv_positive del: power_numeral)
  then have "width_ratio_larger w h asked_width asked_height
           = Inr (w * asked_height > h * asked_width)"
    using float_comparison_exact [OF assms] by (simp add: width_ratio_larger_def)
  then show ?thesis by (simp add: crop_window_def)
qed

theorem branch_agrees_with_cross_multiplication_witness:
  "(300 * 200 + 300 * 100 < (2::int) ^ 53)
   \<and> width_ratio_larger 300 300 100 200 = Inr True
   \<and> width_ratio_larger 300 300 200 100 = Inr False"
  using branch_agrees_with_cross_multiplication [of 300 300 100 200]
    branch_agrees_with_cross_multiplication [of 300 300 200 100]
  by simp

section \<open>The crop window\<close>

lemma scaled_div_le:
  fixes a b c M :: int
  assumes "0 \<le> b" and "b \<le> c" and "0 < c" and "a \<le> M" and "0 \<le> M"
  shows "(a * b) div c \<le> M"
proof (cases "0 \<le> a")
  case True
  then have "a * b \<le> a * c" using assms(2) by (rule mult_left_mono [rotated])
  then have "(a * b) div c \<le> (a * c) div c" using assms(3) by (rule zdiv_mono1)
  also have "\<dots> = a" using assms(3) by simp
  finally show ?thesis using assms(4) by simp
next
  case False
  then have "a * b \<le> 0" using assms(1) by (simp add: mult_le_0_iff)
  then have "(a * b) div c \<le> 0 div c" using assms(3) by (rule zdiv_mono1)
  then show ?thesis using assms(5) by simp
qed

lemma scaled_div_ge:
  fixes a b c :: int
  assumes "0 \<le> a" and "0 < b" and "b \<le> c"
  shows "a \<le> (a * c) div b"
proof -
  have "a * b \<le> a * c" using assms(1,3) by (rule mult_left_mono [rotated])
  then have "(a * b) div b \<le> (a * c) div b" using assms(2) by (rule zdiv_mono1)
  then show ?thesis using assms(2) by simp
qed

lemma scaled_div_nonneg:
  fixes a b c :: int
  assumes "0 \<le> a" and "0 \<le> b" and "0 < c"
  shows "0 \<le> (a * b) div c"
  using assms by (simp add: pos_imp_zdiv_nonneg_iff)

lemma crop_window_asked_nonzero:
  assumes "crop_window w h aw ah = Inr nw"
  shows "aw \<noteq> 0 \<and> ah \<noteq> 0"
  using assms
  by (auto simp add: crop_window_def width_ratio_larger_def py_truediv_def
      split: sum.splits if_splits)

lemma crop_window_bounds:
  assumes "0 < w" and "0 < h" and "0 < aw" and "0 < ah"
    and "crop_window w h aw ah = Inr (nw, nh)"
  shows "0 \<le> nw \<and> nw \<le> w \<and> 0 \<le> nh \<and> nh \<le> h \<and> (nw = w \<or> nh = h)"
proof -
  let ?q = "(ah * w) div aw" and ?p = "(aw * h) div ah"
  have q0: "0 \<le> ?q" and p0: "0 \<le> ?p"
    using assms by (simp_all add: scaled_div_nonneg)
  have f1: "0 \<le> (w * h) div ?q \<and> (w * h) div ?q \<le> w" if "h < ?q"
    using that assms(1,2) by (simp add: scaled_div_nonneg scaled_div_le)
  have f2: "0 \<le> (h * w) div ?p \<and> (h * w) div ?p \<le> h" if "w < ?p"
    using that assms(1,2) by (simp add: scaled_div_nonneg scaled_div_le)
  obtain wider where wr: "width_ratio_larger w h aw ah = Inr wider"
    using assms(5)
    by (cases "width_ratio_larger w h aw ah") (simp_all add: crop_window_def)
  obtain nw0 where cw: "clamp_width w (if wider then (w, ?q) else (?p, h)) = Inr nw0"
    using assms(5) wr
    by (cases "clamp_width w (if wider then (w, ?q) else (?p, h))")
      (simp_all add: crop_window_def)
  have ch: "clamp_height h nw0 = Inr (nw, nh)"
    using assms(5) wr cw by (simp add: crop_window_def)
  show ?thesis
  proof (cases wider)
    case True
    with cw have nw0: "nw0 = (w, ?q)" by (simp add: clamp_width_def)
    show ?thesis
    proof (cases "h < ?q")
      case True
      then have "?q \<noteq> 0" using assms(2) by simp
      with ch nw0 True have "nw = (w * h) div ?q" "nh = h"
        by (auto simp add: clamp_height_def py_floordiv_def)
      with f1 [OF True] assms(2) show ?thesis by simp
    next
      case False
      with ch nw0 have "nw = w" "nh = ?q" by (auto simp add: clamp_height_def)
      with False q0 assms(1) show ?thesis by simp
    qed
  next
    case False
    show ?thesis
    proof (cases "w < ?p")
      case True
      then have "?p \<noteq> 0" using assms(1) by simp
      with cw \<open>\<not> wider\<close> True have nw0: "nw0 = (w, (h * w) div ?p)"
        by (simp add: clamp_width_def py_floordiv_def)
      from f2 [OF True] have "\<not> h < (h * w) div ?p" by simp
      with ch nw0 have "nw = w" "nh = (h * w) div ?p" by (auto simp add: clamp_height_def)
      with f2 [OF True] assms(1) show ?thesis by simp
    next
      case False
      with cw \<open>\<not> wider\<close> have nw0: "nw0 = (?p, h)" by (simp add: clamp_width_def)
      with ch have "nw = ?p" "nh = h" by (auto simp add: clamp_height_def)
      with False p0 assms(2) show ?thesis by simp
    qed
  qed
qed

text \<open>
  The window is computed for every size a Pillow image can have: the only failure for
  positive sizes is the \<^verbatim>\<open>OverflowError\<close> of a quotient beyond the doubles.
\<close>

lemma crop_window_returns:
  assumes "0 < w" and "0 < h" and "0 < aw" and "0 < ah"
    and "w < 2 ^ 1023" and "h < 2 ^ 1023" and "aw \<le> 2 ^ 1022" and "ah \<le> 2 ^ 1022"
  shows "\<exists>nw nh. crop_window w h aw ah = Inr (nw, nh)"
proof -
  have "py_truediv w aw = Inr (binary64 w aw)" "py_truediv h ah = Inr (binary64 h ah)"
    using assms by (simp_all add: py_truediv_positive del: power_numeral)
  then obtain wider where wr: "width_ratio_larger w h aw ah = Inr wider"
    by (simp add: width_ratio_larger_def)
  have cw: "\<exists>x y. clamp_width w (a, b) = Inr (x, y)" for a b
    using assms(1) by (simp add: clamp_width_def py_floordiv_def)
  have ch: "\<exists>x y. clamp_height h (a, b) = Inr (x, y)" for a b
    using assms(2) by (simp add: clamp_height_def py_floordiv_def)
  obtain x y where "clamp_width w
      (if wider then (w, (ah * w) div aw) else ((aw * h) div ah, h)) = Inr (x, y)"
    using cw [of "fst (if wider then (w, (ah * w) div aw) else ((aw * h) div ah, h))"
        "snd (if wider then (w, (ah * w) div aw) else ((aw * h) div ah, h))"]
    by auto
  with wr ch [of x y] show ?thesis by (simp add: crop_window_def)
qed

lemma binary64_examples:
  "binary64 300 100 = 3" "binary64 300 200 = 3 / 2"
  by code_simp+

lemma py_truediv_examples:
  "py_truediv 300 100 = Inr 3" "py_truediv 300 200 = Inr (3 / 2)"
  by (simp_all add: py_truediv_def binary64_examples)

lemma crop_window_examples:
  "crop_window 300 300 100 200 = Inr (150, 300)"
  "crop_window 300 300 200 100 = Inr (300, 150)"
  by (simp_all add: crop_window_def width_ratio_larger_def py_truediv_examples
      clamp_width_def clamp_height_def py_floordiv_def)

text \<open>
  C1: for positive original and asked sizes, the crop window that the branch and the two
  clamps compute is within the original, \<open>newW \<le> w\<close> and \<open>newH \<le> h\<close>, and at least one
  of its sides is the original's, also when a clamp has rescaled it. (Whichever branch
  the float comparison takes.)
\<close>

theorem crop_window_within_original:
  assumes "0 < w" and "0 < h" and "0 < asked_width" and "0 < asked_height"
    and "crop_window w h asked_width asked_height = Inr (new_w, new_h)"
  shows "new_w \<le> w \<and> new_h \<le> h \<and> (new_w = w \<or> new_h = h)"
  using crop_window_bounds [OF assms] by simp

theorem crop_window_within_original_witness:
  "crop_window 300 300 100 200 = Inr (150, 300)
   \<and> (150::int) \<le> 300 \<and> (300::int) \<le> 300 \<and> ((150::int) = 300 \<or> (300::int) = 300)"
  using crop_window_within_original [of 300 300 100 200 150 300]
  by (simp add: crop_window_examples)

section \<open>Cropping and resizing\<close>

text \<open>Rounding never crosses an integer; the later blocks keep the size of the image.\<close>

lemma py_round_lower:
  assumes "of_int n \<le> t"
  shows "n \<le> py_round t"
proof -
  from assms have "n \<le> \<lfloor>t\<rfloor>" by (simp add: le_floor_iff)
  then show ?thesis by (simp add: py_round_def Let_def)
qed

lemma py_round_upper:
  assumes "t \<le> of_int n"
  shows "py_round t \<le> n"
proof (cases "t = of_int \<lfloor>t\<rfloor>")
  case True
  then have "t - of_int \<lfloor>t\<rfloor> = 0" by simp
  then have "py_round t = \<lfloor>t\<rfloor>" by (simp add: py_round_def Let_def)
  moreover have "\<lfloor>t\<rfloor> \<le> n" using assms by (simp add: floor_le_iff)
  ultimately show ?thesis by simp
next
  case False
  have "of_int \<lfloor>t\<rfloor> \<le> t" by (rule of_int_floor_le)
  with False have "of_int \<lfloor>t\<rfloor> < t" by linarith
  with assms have "(of_int \<lfloor>t\<rfloor> :: rat) < of_int n" by simp
  then have "\<lfloor>t\<rfloor> < n" by (simp only: of_int_less_iff)
  then show ?thesis by (simp add: py_round_def Let_def)
qed

lemma py_round_of_int [simp]: "py_round (of_int n) = n"
  using py_round_lower [of n "of_int n"] py_round_upper [of "of_int n" n] by simp

lemma py_round_numeral [simp]: "py_round (numeral k) = numeral k"
  using py_round_of_int [of "numeral k"] by simp

lemma py_round_zero [simp]: "py_round 0 = 0"
  using py_round_of_int [of 0] by simp

lemma im_size_colorize_step [simp]: "im_size (colorize_step draws original) = im_size original"
  by (simp add: colorize_step_def Let_def Image_new_def pil_paste_color_def
      pil_paste_masked_def)

lemma im_size_png_step [simp]: "im_size (png_step img) = im_size img"
  by (simp add: png_step_def Let_def pil_convert_def pil_convert_web_def pil_putalpha_def
      split: option.splits)

lemma im_size_format_step [simp]: "im_size (fst (format_step f q img opt)) = im_size img"
  by (simp add: format_step_def Let_def)

lemma im_size_normalise_mode [simp]: "im_size (normalise_mode f img) = im_size img"
  by (simp add: normalise_mode_def pil_convert_def)

text \<open>The thumbnail only shrinks, and the rounded crop box stays inside the image.\<close>

lemma thumbnail_size_fits:
  assumes "x \<le> bw" and "y \<le> bh"
  shows "thumbnail_size (x, y) (bw, bh) = (x, y)"
  using assms by (simp add: thumbnail_size_def)

lemma thumbnail_size_bounds:
  assumes "0 \<le> bw" and "0 \<le> bh" and "x \<le> W" and "y \<le> H" and "1 \<le> W" and "1 \<le> H"
  shows "fst (thumbnail_size (x, y) (bw, bh)) \<le> W \<and> snd (thumbnail_size (x, y) (bw, bh)) \<le> H"
proof -
  define x1 where "x1 = (if x > bw then bw else x)"
  define y1 where "y1 = (if x > bw then max ((y * bw) div x) 1 else y)"
  have x1: "x1 \<le> W" using assms(3) by (simp add: x1_def)
  have y1: "y1 \<le> H"
  proof (cases "x > bw")
    case True
    then have "(y * bw) div x \<le> H"
      using assms by (intro scaled_div_le) simp_all
    with True assms(6) show ?thesis by (simp add: y1_def)
  next
    case False
    with assms(4) show ?thesis by (simp add: y1_def)
  qed
  have t: "thumbnail_size (x, y) (bw, bh)
      = (if y1 > bh then (max ((x1 * bh) div y1) 1, bh) else (x1, y1))"
    by (simp add: thumbnail_size_def x1_def y1_def)
  show ?thesis
  proof (cases "y1 > bh")
    case True
    then have "(x1 * bh) div y1 \<le> W"
      using assms x1 by (intro scaled_div_le) simp_all
    with True assms(5) y1 show ?thesis by (simp add: t)
  next
    case False
    with x1 y1 show ?thesis by (simp add: t)
  qed
qed

lemma im_size_pil_thumbnail:
  "im_size (pil_thumbnail img box) = thumbnail_size (im_size img) box"
  by (simp add: pil_thumbnail_def Let_def)

lemma pil_crop_size_bounds:
  assumes "0 \<le> nw" and "nw \<le> w" and "0 \<le> nh" and "nh \<le> h"
  shows "fst (im_size (pil_crop img (crop_box w h nw nh c))) \<le> w
       \<and> snd (im_size (pil_crop img (crop_box w h nw nh c))) \<le> h"
proof -
  define cy :: rat where
    "cy = (if c = ''top'' then 0 else if c = ''bottom'' then 1 else 1 / 2)"
  have cy: "0 \<le> cy" "cy \<le> 1" by (simp_all add: cy_def)
  define x0 :: rat where "x0 = of_int (w - nw) * (1 / 2)"
  define y0 :: rat where "y0 = of_int (h - nh) * cy"
  have dw: "(0::rat) \<le> of_int (w - nw)" and dh: "(0::rat) \<le> of_int (h - nh)"
    using assms by simp_all
  have "of_int 0 \<le> x0" using dw by (simp add: x0_def)
  then have l: "0 \<le> py_round x0" by (rule py_round_lower)
  have "of_int 0 \<le> y0" using dh cy by (simp add: y0_def)
  then have t: "0 \<le> py_round y0" by (rule py_round_lower)
  have "x0 + of_int nw \<le> of_int w"
  proof -
    have "(of_int nw :: rat) \<le> of_int w" using assms(2) by (simp only: of_int_le_iff)
    then show ?thesis by (simp add: x0_def field_simps)
  qed
  then have r: "py_round (x0 + of_int nw) \<le> w" by (rule py_round_upper)
  have "y0 \<le> of_int (h - nh)"
  proof -
    have "of_int (h - nh) * cy \<le> of_int (h - nh) * 1"
      using dh cy(2) by (rule mult_left_mono [rotated])
    then show ?thesis by (simp add: y0_def)
  qed
  then have "y0 + of_int nh \<le> of_int h" by simp
  then have b: "py_round (y0 + of_int nh) \<le> h" by (rule py_round_upper)
  have "im_size (pil_crop img (crop_box w h nw nh c))
      = (py_round (x0 + of_int nw) - py_round x0, py_round (y0 + of_int nh) - py_round y0)"
    by (simp add: pil_crop_def crop_box_def Let_def x0_def y0_def cy_def)
  with l t r b show ?thesis by simp
qed

lemma crop_step_size:
  assumes "0 < w" and "0 < h" and "0 \<le> aw" and "0 \<le> ah" and "im_size img = (w, h)"
    and "crop_step crop (aw, ah) img = Inr img1"
  shows "fst (im_size img1) \<le> w \<and> snd (im_size img1) \<le> h
       \<and> (\<not> truthy_str crop \<longrightarrow> img1 = img)"
proof (cases "truthy_str crop")
  case False
  with assms(5,6) show ?thesis by (simp add: crop_step_def)
next
  case True
  with assms(5,6) obtain nw nh where win: "crop_window w h aw ah = Inr (nw, nh)"
    and img1: "img1 = pil_crop img (crop_box w h nw nh (the crop))"
    by (auto simp add: crop_step_def split: sum.splits)
  from crop_window_asked_nonzero [OF win] assms(3,4) have "0 < aw" "0 < ah" by simp_all
  from crop_window_bounds [OF assms(1,2) this win]
  have "0 \<le> nw" "nw \<le> w" "0 \<le> nh" "nh \<le> h" by simp_all
  from pil_crop_size_bounds [OF this] True img1 show ?thesis by simp
qed

lemma resize_step_crop_top_example:
  assumes "im_size img = (300, 300)"
  shows "resize_step (Some (100, 200)) (Some ''top'') img
       = Inr (img\<lparr>im_size := (100, 200), im_format := None,
                  im_pixels := Resize (100, 200) (Crop (75, 0, 225, 300) (im_pixels img))\<rparr>)"
  using assms
  by (simp add: resize_step_def asked_size_def crop_step_def crop_window_examples
      crop_box_def pil_crop_def pil_thumbnail_def thumbnail_size_def Let_def)

text \<open>
  C3: for a source that decodes to a \<open>300 \<times> 300\<close> image, \<^verbatim>\<open>size=(100, 200)\<close> and
  \<^verbatim>\<open>crop='top'\<close>: the asked size is \<open>(100, 200)\<close>; the crop window after the clamps is
  \<open>150 \<times> 300\<close>, its height the original's; it is placed at the top edge, \<open>yOffset = 0\<close>,
  and centred horizontally, \<open>xOffset = (300 - 150) * 0.5 = 75\<close>; and the image that is
  encoded measures exactly \<open>100 \<times> 200\<close>, whatever the other options are.
\<close>

theorem crop_top_scenario:
  assumes "truthy_source base64_source" and "\<not> first_is_P base64_source"
    and "base64_to_image lib base64_source = Inr img"
    and "im_size img = (300, 300)" and "im_format img = Some fmt"
  shows "asked_size (300, 300) (100, 200) = Inr (100, 200)
       \<and> crop_window 300 300 100 200 = Inr (150, 300)
       \<and> crop_box 300 300 150 300 ''top'' = (75, 0, 225, 300)
       \<and> resize_step (Some (100, 200)) (Some ''top'') img
           = Inr (img\<lparr>im_size := (100, 200), im_format := None,
                  im_pixels := Resize (100, 200) (Crop (75, 0, 225, 300) (im_pixels img))\<rparr>)
       \<and> (\<exists>img' opt.
             image_process lib draws base64_source (Some (100, 200)) verify_resolution
               quality (Some ''top'') colorize output_format = Inr (REncoded img' opt)
           \<and> im_size img' = (100, 200))"
proof -
  have a: "asked_size (300, 300) (100, 200) = Inr (100, 200)"
    by (simp add: asked_size_def)
  have b: "crop_box 300 300 150 300 ''top'' = (75, 0, 225, 300)"
    by (simp add: crop_box_def)
  note c = resize_step_crop_top_example [OF assms(4)]
  have chk: "check_resolution lib verify_resolution img = Inr ()"
    using assms(4) by (simp add: check_resolution_cases)
  have "\<exists>f. resolve_output_format output_format img = Inr f"
    using assms(5) by (cases output_format) (auto simp add: resolve_output_format_def Let_def)
  then obtain f where f: "resolve_output_format output_format img = Inr f" by blast
  have d: "\<exists>img' opt.
             image_process lib draws base64_source (Some (100, 200)) verify_resolution
               quality (Some ''top'') colorize output_format = Inr (REncoded img' opt)
           \<and> im_size img' = (100, 200)"
    unfolding image_process_decoded [OF assms(1,2,3)] using chk f c by simp
  from a b c d crop_window_examples(1) show ?thesis by blast
qed

theorem crop_top_scenario_witness:
  "\<exists>img' opt.
      image_process (example_library (example_image (300, 300) ''JPEG'' ''RGB'')) (0, 1, 2)
        (PyBytes ''/9j/4AAQ'') (Some (100, 200)) False 80 (Some ''top'') False None
      = Inr (REncoded img' opt)
    \<and> im_size img' = (100, 200)"
  using crop_top_scenario [where base64_source = "PyBytes ''/9j/4AAQ''"
      and lib = "example_library (example_image (300, 300) ''JPEG'' ''RGB'')"
      and img = "example_image (300, 300) ''JPEG'' ''RGB''" and fmt = "''JPEG''"
      and draws = "(0, 1, 2)" and verify_resolution = False and quality = 80
      and colorize = False and output_format = None]
  by (simp add: example_image_def)

lemma sdiv_nonneg:
  fixes a b :: int
  assumes "0 \<le> a" and "0 < b"
  shows "a sdiv b = a div b"
proof (cases "a = 0")
  case True
  then show ?thesis by simp
next
  case False
  with assms have "0 < a" by simp
  with assms(2) show ?thesis by (simp add: signed_divide_int_def)
qed

lemma asked_size_one_given:
  assumes "0 < w" and "0 < h" and "0 \<le> s0" and "0 \<le> s1"
  shows "asked_size (w, h) (s0, s1)
       = Inr (if s0 \<noteq> 0 then s0 else (w * s1) sdiv h,
              if s1 \<noteq> 0 then s1 else (h * s0) sdiv w)"
proof -
  have "(w * s1) sdiv h = (w * s1) div h" "(h * s0) sdiv w = (h * s0) div w"
    using assms by (simp_all add: sdiv_nonneg)
  then show ?thesis
    using assms(1,2) by (simp add: asked_size_def py_floordiv_def)
qed

lemma resize_step_size:
  assumes "0 < w" and "0 < h" and "0 \<le> s0" and "0 \<le> s1" and "(s0 = 0) \<noteq> (s1 = 0)"
    and "im_size img = (w, h)"
    and "resize_step (Some (s0, s1)) crop img = Inr img2"
  shows "fst (im_size img2) \<le> w \<and> snd (im_size img2) \<le> h
       \<and> (\<not> truthy_str crop \<and> (w \<le> s0 \<or> h \<le> s1) \<longrightarrow> im_size img2 = (w, h))"
proof -
  define aw where "aw = (if s0 \<noteq> 0 then s0 else (w * s1) div h)"
  define ah where "ah = (if s1 \<noteq> 0 then s1 else (h * s0) div w)"
  have asked: "asked_size (w, h) (s0, s1) = Inr (aw, ah)"
    using assms(1,2) by (simp add: asked_size_def py_floordiv_def aw_def ah_def)
  have nonneg: "0 \<le> aw" "0 \<le> ah"
    using assms(1-4) by (simp_all add: aw_def ah_def scaled_div_nonneg)
  from assms(5,6,7) asked obtain img1
    where c: "crop_step crop (aw, ah) img = Inr img1"
      and t: "img2 = pil_thumbnail img1 (aw, ah)"
    by (auto simp add: resize_step_def split: sum.splits if_splits)
  note cs = crop_step_size [OF assms(1,2) nonneg assms(6) c]
  have one: "1 \<le> w" "1 \<le> h" using assms(1,2) by simp_all
  have "fst (thumbnail_size (fst (im_size img1), snd (im_size img1)) (aw, ah)) \<le> w
      \<and> snd (thumbnail_size (fst (im_size img1), snd (im_size img1)) (aw, ah)) \<le> h"
    using nonneg cs one by (intro thumbnail_size_bounds) simp_all
  then have within: "fst (im_size img2) \<le> w \<and> snd (im_size img2) \<le> h"
    by (simp add: t im_size_pil_thumbnail)
  have same: "im_size img2 = (w, h)" if "\<not> truthy_str crop" and "w \<le> s0 \<or> h \<le> s1"
  proof -
    from cs that(1) have "img1 = img" by simp
    moreover have "w \<le> aw \<and> h \<le> ah"
    proof (cases "s0 = 0")
      case True
      with assms(5) that(2) assms(1) have "s1 \<noteq> 0" "h \<le> s1" by auto
      moreover have "w \<le> (w * s1) div h"
        using assms(1,2) \<open>h \<le> s1\<close> by (intro scaled_div_ge) simp_all
      ultimately show ?thesis using True by (simp add: aw_def ah_def)
    next
      case False
      with assms(5) that(2) assms(2) have "s1 = 0" "w \<le> s0" by auto
      moreover have "h \<le> (h * s0) div w"
        using assms(1,2) \<open>w \<le> s0\<close> by (intro scaled_div_ge) simp_all
      ultimately show ?thesis using False by (simp add: aw_def ah_def)
    qed
    ultimately show ?thesis
      using assms(6) by (simp add: t im_size_pil_thumbnail thumbnail_size_fits)
  qed
  from within same show ?thesis by blast
qed

lemma resize_step_without_crop:
  assumes "0 < w" and "0 < h" and "im_size img = (w, h)" and "\<not> truthy_str crop"
  shows "\<exists>img2. resize_step size_arg crop img = Inr img2"
  using assms
  by (auto simp add: resize_step_def crop_step_def asked_size_def py_floordiv_def
      split: option.splits)

lemma sdiv_example: "(1000 * 500) sdiv (2000::int) = 250"
  by (simp add: signed_divide_int_def)

text \<open>
  C4: for an image of \<open>w \<times> h\<close> pixels (both positive) and a size with exactly one zero
  component (the other positive), the missing asked side is the truncating quotient
  \<open>(w * size.height) / h\<close>, respectively \<open>(h * size.width) / w\<close>, and the given side is
  kept. Whenever \<^verbatim>\<open>image_process\<close> returns, the encoded image is no wider and no higher
  than the original; without crop, a requested side at or above the original's leaves
  the size at the original's. Without crop the call does return once the guard passes
  and a format is known.
\<close>

theorem asked_size_and_downscale_only:
  assumes "0 < w" and "0 < h" and "0 \<le> s0" and "0 \<le> s1" and "(s0 = 0) \<noteq> (s1 = 0)"
    and "truthy_source base64_source" and "\<not> first_is_P base64_source"
    and "base64_to_image lib base64_source = Inr img" and "im_size img = (w, h)"
  shows "asked_size (w, h) (s0, s1)
           = Inr (if s0 \<noteq> 0 then s0 else (w * s1) sdiv h,
                  if s1 \<noteq> 0 then s1 else (h * s0) sdiv w)
       \<and> (\<forall>r. image_process lib draws base64_source (Some (s0, s1)) verify_resolution
                 quality crop colorize output_format = Inr r \<longrightarrow>
              (\<exists>img' opt. r = REncoded img' opt
                 \<and> fst (im_size img') \<le> w \<and> snd (im_size img') \<le> h
                 \<and> (\<not> truthy_str crop \<and> (w \<le> s0 \<or> h \<le> s1) \<longrightarrow> im_size img' = (w, h))))
       \<and> (\<not> truthy_str crop \<and> \<not> (verify_resolution \<and> 45000000 < w * h)
            \<and> (truthy_str output_format \<or> im_format img \<noteq> None) \<longrightarrow>
              (\<exists>r. image_process lib draws base64_source (Some (s0, s1)) verify_resolution
                 quality crop colorize output_format = Inr r))"
proof -
  let ?run = "image_process lib draws base64_source (Some (s0, s1)) verify_resolution
                 quality crop colorize output_format"
  note dec = image_process_decoded [OF assms(6,7,8)]
  have a: "asked_size (w, h) (s0, s1)
           = Inr (if s0 \<noteq> 0 then s0 else (w * s1) sdiv h,
                  if s1 \<noteq> 0 then s1 else (h * s0) sdiv w)"
    using assms(1-4) by (rule asked_size_one_given)
  have b: "\<exists>img' opt. r = REncoded img' opt
                 \<and> fst (im_size img') \<le> w \<and> snd (im_size img') \<le> h
                 \<and> (\<not> truthy_str crop \<and> (w \<le> s0 \<or> h \<le> s1) \<longrightarrow> im_size img' = (w, h))"
    if run: "?run = Inr r" for r
  proof -
    from run obtain f img2 where rs: "resize_step (Some (s0, s1)) crop img = Inr img2"
      and r: "r = REncoded
                (normalise_mode f (fst (format_step f quality
                    (if colorize then colorize_step draws img2 else img2)
                    [''format'' \<mapsto> VStr f])))
                (snd (format_step f quality
                    (if colorize then colorize_step draws img2 else img2)
                    [''format'' \<mapsto> VStr f]))"
      unfolding dec by (auto split: sum.splits)
    from resize_step_size [OF assms(1-5) assms(9) rs] r show ?thesis by simp
  qed
  have c: "\<exists>r. ?run = Inr r"
    if "\<not> truthy_str crop" and "\<not> (verify_resolution \<and> 45000000 < w * h)"
      and "truthy_str output_format \<or> im_format img \<noteq> None"
  proof -
    from resize_step_without_crop [OF assms(1,2,9) that(1)]
    obtain img2 where "resize_step (Some (s0, s1)) crop img = Inr img2" by blast
    moreover have "check_resolution lib verify_resolution img = Inr ()"
      using that(2) assms(9) by (auto simp add: check_resolution_cases)
    moreover have "\<exists>f. resolve_output_format output_format img = Inr f"
      using that(3)
      by (cases output_format; cases "im_format img")
        (auto simp add: resolve_output_format_def Let_def)
    ultimately show ?thesis unfolding dec by auto
  qed
  from a b c show ?thesis by blast
qed

theorem asked_size_and_downscale_only_witness:
  "asked_size (2000, 1000) (500, 0) = Inr (500, 250)
   \<and> (\<exists>img' opt.
        image_process (example_library (example_image (2000, 1000) ''PNG'' ''RGB'')) (0, 1, 2)
          (PyBytes ''iVBORw0K'') (Some (4000, 0)) False 80 None False None
        = Inr (REncoded img' opt)
      \<and> im_size img' = (2000, 1000))"
proof -
  let ?img = "example_image (2000, 1000) ''PNG'' ''RGB''"
  have pre: "truthy_source (PyBytes ''iVBORw0K'')" "\<not> first_is_P (PyBytes ''iVBORw0K'')"
    "base64_to_image (example_library ?img) (PyBytes ''iVBORw0K'') = Inr ?img"
    "im_size ?img = (2000, 1000)"
    by (simp_all add: example_image_def)
  have "(0::int) < 2000" "(0::int) < 1000" "(0::int) \<le> 500" "(0::int) \<le> 0"
    "((500::int) = 0) \<noteq> ((0::int) = 0)"
    by simp_all
  from asked_size_and_downscale_only [OF this pre]
  have small: "asked_size (2000, 1000) (500, 0) = Inr (500, 250)"
    using sdiv_example by simp
  have "(0::int) < 2000" "(0::int) < 1000" "(0::int) \<le> 4000" "(0::int) \<le> 0"
    "((4000::int) = 0) \<noteq> ((0::int) = 0)"
    by simp_all
  from asked_size_and_downscale_only [OF this pre, where draws = "(0, 1, 2)"
      and verify_resolution = False and quality = 80 and crop = None and colorize = False
      and output_format = None]
  have "\<exists>img' opt.
        image_process (example_library ?img) (0, 1, 2)
          (PyBytes ''iVBORw0K'') (Some (4000, 0)) False 80 None False None
        = Inr (REncoded img' opt)
      \<and> im_size img' = (2000, 1000)"
    by (auto simp add: example_image_def)
  with small show ?thesis by blast
qed

end
